theory Spec2Isabelle
  imports Main
begin

section \<open>Data model\<close>

text \<open>
  The program is one Python class, \<open>Chat\<close>, in \<open>main.py\<close>. Its methods are
  embedded below as functions. A Python \<open>str\<close> is a \<open>string\<close>; the embedding only
  ever compares characters with the space, classifies them as digits, or as the
  word and whitespace characters of a regular expression, so one \<open>char\<close> stands for
  one character of the text, and the character classes are those of Python 3 on the
  code points below 256. A Python \<open>dict\<close> keeps its keys in insertion order and
  holds every key once; it is an association list, and \<open>dict_set\<close> is the
  \<open>d |= {k: v}\<close> of the source: the value of a key that is there is replaced in
  place, a new key goes to the end.
\<close>

type_synonym ('k, 'v) dict = "('k \<times> 'v) list"

definition dict_get :: "('k, 'v) dict \<Rightarrow> 'k \<Rightarrow> 'v option" where
  "dict_get d k = map_of d k"

fun dict_set :: "('k, 'v) dict \<Rightarrow> 'k \<Rightarrow> 'v \<Rightarrow> ('k, 'v) dict" where
  "dict_set [] k v = [(k, v)]"
| "dict_set ((k', v') # d) k v =
     (if k' = k then (k, v) # d else (k', v') # dict_set d k v)"

definition dict_del :: "('k, 'v) dict \<Rightarrow> 'k \<Rightarrow> ('k, 'v) dict" where
  "dict_del d k = filter (\<lambda>kv. fst kv \<noteq> k) d"

definition dict_keys :: "('k, 'v) dict \<Rightarrow> 'k list" where
  "dict_keys d = map fst d"

text \<open>
  Every \<open>raise\<close> of the source is a \<open>ValueError\<close> that differs only in its
  message and in the place that raises it; the constructors below name the places.
  The last four are the exceptions of the Python runtime itself
  (\<open>min\<close> of an empty list, a list added to a dict, a missing key, a missing
  attribute).
\<close>

datatype required = PriceAndAddress | FullName

datatype error =
    PatternNotFoundError
  | MalformedQueryError
  | UnknownTargetError
  | UnknownVerbError
  | PermissionDeniedError
  | MissingRequiredFieldError required
  | UnknownRenderTargetError
  | PyValueError
  | PyTypeError
  | PyKeyError
  | PyAttributeError

text \<open>
  The pattern catalogue is loaded from \<open>patterns.json\<close>, which is not among the
  sources, so it is a parameter everywhere. \<open>field_words\<close> are the trigger words
  tested by \<open>word in self._patterns["field_words"]\<close>; \<open>canon\<close> is the top-level
  lookup \<open>self._patterns[word]\<close> that gives the canonical field name of a trigger
  word (\<open>None\<close> where the key is missing); the other five are the word lists read
  by \<open>make_query\<close>.
\<close>

record patterns =
  field_words :: "string list"
  canon :: "string \<Rightarrow> string option"
  realty :: "string list"
  worker :: "string list"
  request :: "string list"
  get_verbs :: "string list"
  insert_verbs :: "string list"

section \<open>Field Classifier: \<open>split_fields\<close>\<close>

text \<open>
  The loop of \<open>split_fields\<close>. \<open>row\<close> is \<open>None\<close> for the empty list \<open>[]\<close> the
  source starts with and \<open>Some (name, words)\<close> for \<open>[name, words]\<close>. Any exception
  inside the loop (the \<open>IndexError\<close> of \<open>row[1]\<close> on the empty row, the
  \<open>KeyError\<close> of \<open>self._patterns[word]\<close>) is caught by the bare \<open>except\<close> and
  raised again as the error of a malformed query.
\<close>

fun split_fields_loop ::
  "patterns \<Rightarrow> string list \<Rightarrow> (string, string list) dict \<Rightarrow> (string \<times> string list) option
     \<Rightarrow> error + ((string, string list) dict \<times> (string \<times> string list) option)" where
  "split_fields_loop p [] flds row = Inr (flds, row)"
| "split_fields_loop p (word # query) flds row =
     (if word \<in> set (field_words p) then
        (let flds' =
           (case row of
              None \<Rightarrow> flds
            | Some (name, ws) \<Rightarrow>
                (let ins = (case dict_get flds name of None \<Rightarrow> [] | Some i \<Rightarrow> i)
                 in dict_set flds name (ws @ ins)))
         in (case canon p word of
               None \<Rightarrow> Inl MalformedQueryError
             | Some name' \<Rightarrow> split_fields_loop p query flds' (Some (name', []))))
      else
        (case row of
           None \<Rightarrow> Inl MalformedQueryError
         | Some (name, ws) \<Rightarrow> split_fields_loop p query flds (Some (name, ws @ [word]))))"

definition split_fields :: "patterns \<Rightarrow> string list \<Rightarrow> error + (string, string list) dict" where
  "split_fields p query =
     (case split_fields_loop p query [] None of
        Inl e \<Rightarrow> Inl e
      | Inr (flds, row) \<Rightarrow>
          Inr (case row of None \<Rightarrow> flds | Some (name, ws) \<Rightarrow> dict_set flds name ws))"

text \<open>
  A sample catalogue for the concrete evaluations. The catalogue of the program
  holds Ukrainian words; the sample writes them in Latin letters
  (\<open>tsina\<close> for the price keyword, \<open>adresa\<close> for the address keyword, and so on).
\<close>

definition sample_canon :: "string \<Rightarrow> string option" where
  "sample_canon w =
     (if w = ''tsina'' then Some ''price''
      else if w = ''adresa'' then Some ''address''
      else if w = ''opys'' then Some ''description''
      else if w = ''pib'' then Some ''fullname''
      else None)"

definition sample_patterns :: patterns where
  "sample_patterns =
     \<lparr> field_words = [''tsina'', ''adresa'', ''opys'', ''pib''],
       canon = sample_canon,
       realty = [''kvartyra'', ''nerukhomist''],
       worker = [''riieltor''],
       request = [''zapyt''],
       get_verbs = [''pokazaty'', ''znaity''],
       insert_verbs = [''dodaty''] \<rparr>"

section \<open>Strings\<close>

text \<open>\<open>" ".join(words)\<close>.\<close>

fun join_sp :: "string list \<Rightarrow> string" where
  "join_sp [] = []"
| "join_sp [w] = w"
| "join_sp (w # v # ws) = w @ CHR '' '' # join_sp (v # ws)"

text \<open>
  \<open>s.split(" ")\<close>: every single space separates, so two spaces in a row, a leading
  or a trailing space give an empty piece, and the empty string gives one empty piece.
\<close>

fun split_sp :: "string \<Rightarrow> string list" where
  "split_sp [] = [[]]"
| "split_sp (c # cs) =
     (if c = CHR '' '' then [] # split_sp cs
      else (case split_sp cs of [] \<Rightarrow> [[c]] | w # ws \<Rightarrow> (c # w) # ws))"

text \<open>
  \<open>s.replace(old, new)\<close>: the occurrences of \<open>old\<close> are found scanning from the
  left, each search resuming after the occurrence replaced, so they do not overlap.
  With an empty \<open>old\<close> Python puts \<open>new\<close> before every character and at the end.
\<close>

fun replace_scan :: "string \<Rightarrow> string \<Rightarrow> string \<Rightarrow> string" where
  "replace_scan old new [] = []"
| "replace_scan old new (c # cs) =
     (if take (length old) (c # cs) = old
      then new @ replace_scan old new (drop (length old - 1) cs)
      else c # replace_scan old new cs)"

definition str_replace :: "string \<Rightarrow> string \<Rightarrow> string \<Rightarrow> string" where
  "str_replace old new s =
     (if old = [] then new @ concat (map (\<lambda>c. c # new) s) else replace_scan old new s)"

text \<open>
  \<open>m\<close> occurs in \<open>s\<close> as a substring; \<open>occ_join m parts\<close> is the text that has the
  parts in order with one copy of \<open>m\<close> between each two (\<open>m.join(parts)\<close>); and
  \<open>scan_parts m parts\<close> says that these copies are the occurrences a scan from the
  left finds: no part, followed by all of \<open>m\<close> but its last character, holds
  \<open>m\<close>, nor does the last part.
\<close>

fun occurs :: "string \<Rightarrow> string \<Rightarrow> bool" where
  "occurs m [] = (m = [])"
| "occurs m (c # cs) = (take (length m) (c # cs) = m \<or> occurs m cs)"

fun occ_join :: "string \<Rightarrow> string list \<Rightarrow> string" where
  "occ_join m [] = []"
| "occ_join m [p] = p"
| "occ_join m (p # q # ps) = p @ m @ occ_join m (q # ps)"

fun scan_parts :: "string \<Rightarrow> string list \<Rightarrow> bool" where
  "scan_parts m [] = True"
| "scan_parts m [p] = (\<not> occurs m p)"
| "scan_parts m (p # q # ps) = (\<not> occurs m (p @ butlast m) \<and> scan_parts m (q # ps))"

section \<open>Action Locator: \<open>split_on_parts\<close>\<close>

text \<open>
  \<open>re.search(self._search_action, joined_sentence)\<close> is the parameter \<open>search\<close>:
  it gives \<open>group(0)\<close> of the first match, or \<open>None\<close>. The pattern is built from two
  fragments of the catalogue, which is not among the sources.
\<close>

definition split_on_parts ::
  "(string \<Rightarrow> string option) \<Rightarrow> string list \<Rightarrow> error + (string list \<times> (string \<times> string))" where
  "split_on_parts search splited_sentence =
     (let joined_sentence = join_sp splited_sentence in
      case search joined_sentence of
        None \<Rightarrow> Inl PatternNotFoundError
      | Some action_words \<Rightarrow>
          (let flds = split_sp (str_replace action_words [] joined_sentence);
               aw = split_sp action_words
           in Inr (filter (\<lambda>v. v \<noteq> []) flds, (hd aw, last aw))))"

text \<open>
  Modelled from the spec: the catalogue entries \<open>rverbs\<close> and \<open>raction_words\<close>, taken
  as alternations of literal words, \<open>(v1|v2|...)\<close> and \<open>(a1|a2|...)\<close>. \<open>search_action\<close>
  is then Python's search for \<open>(v1|...)[\w\s]{0,20}(a1|...)\<close>: the leftmost start, there
  the first verb that leads to a match, for it the longest filler, and after the filler
  the first action word. \<open>is_filler\<close> is the class \<open>[\w\s]\<close> of Python 3 on the
  characters below code point 256: letters, digits and the underscore, and the
  white space.
\<close>

definition is_filler :: "char \<Rightarrow> bool" where
  "is_filler c =
     (let n = (of_char c :: nat) in
        (48 \<le> n \<and> n \<le> 57) \<or> (65 \<le> n \<and> n \<le> 90) \<or> (97 \<le> n \<and> n \<le> 122) \<or> n = 95
        \<or> n = 170 \<or> n = 178 \<or> n = 179 \<or> n = 181 \<or> n = 185 \<or> n = 186
        \<or> (188 \<le> n \<and> n \<le> 190) \<or> (192 \<le> n \<and> n \<le> 214)
        \<or> (216 \<le> n \<and> n \<le> 246) \<or> (248 \<le> n \<and> n \<le> 255)
        \<or> (9 \<le> n \<and> n \<le> 13) \<or> (28 \<le> n \<and> n \<le> 32) \<or> n = 133 \<or> n = 160)"

fun first_prefix :: "string list \<Rightarrow> string \<Rightarrow> string option" where
  "first_prefix [] s = None"
| "first_prefix (a # as) s =
     (if take (length a) s = a then Some a else first_prefix as s)"

fun try_filler :: "string list \<Rightarrow> string \<Rightarrow> nat \<Rightarrow> string option" where
  "try_filler as rest 0 = first_prefix as rest"
| "try_filler as rest (Suc n) =
     (if Suc n \<le> length rest \<and> list_all is_filler (take (Suc n) rest)
      then (case first_prefix as (drop (Suc n) rest) of
              Some a \<Rightarrow> Some (take (Suc n) rest @ a)
            | None \<Rightarrow> try_filler as rest n)
      else try_filler as rest n)"

fun match_here :: "string list \<Rightarrow> string list \<Rightarrow> string \<Rightarrow> string option" where
  "match_here [] as s = None"
| "match_here (v # vs) as s =
     (if take (length v) s = v
      then (case try_filler as (drop (length v) s) 20 of
              Some fa \<Rightarrow> Some (v @ fa)
            | None \<Rightarrow> match_here vs as s)
      else match_here vs as s)"

fun search_action :: "string list \<Rightarrow> string list \<Rightarrow> string \<Rightarrow> string option" where
  "search_action vs as [] = match_here vs as []"
| "search_action vs as (c # cs) =
     (case match_here vs as (c # cs) of
        Some m \<Rightarrow> Some m
      | None \<Rightarrow> search_action vs as cs)"

section \<open>Field Transformer, search mode: \<open>fix_search_fields\<close>\<close>

text \<open>
  The values of a search filter: a bucket of words as the classifier left it, and the
  four operator objects \<open>{"$elemMatch": {"$in": ws}}\<close>,
  \<open>{"$regex": s, "$options": "i"}\<close>, \<open>{"$in": v}\<close> and \<open>{"$gte": lo, "$lte": hi}\<close>.
\<close>

datatype fragment =
    Lit "string list"
  | ElemMatchIn "string list"
  | RegexI string
  | In fragment
  | Range int int

text \<open>\<open>v or []\<close> on the result of \<open>dict.get\<close>: a missing key and an empty list give \<open>[]\<close>.\<close>

definition get_or_empty :: "(string, fragment) dict \<Rightarrow> string \<Rightarrow> fragment" where
  "get_or_empty d k =
     (case dict_get d k of
        None \<Rightarrow> Lit []
      | Some (Lit ws) \<Rightarrow> Lit ws
      | Some v \<Rightarrow> v)"

text \<open>\<open>a + b\<close>: two lists are concatenated, a dict on either side is a \<open>TypeError\<close>.\<close>

fun list_add :: "fragment \<Rightarrow> fragment \<Rightarrow> error + string list" where
  "list_add (Lit a) (Lit b) = Inr (a @ b)"
| "list_add _ _ = Inl PyTypeError"

text \<open>What \<open>" ".join(v)\<close> iterates over: the words of a list, the keys of a dict.\<close>

fun iter_strs :: "fragment \<Rightarrow> string list" where
  "iter_strs (Lit ws) = ws"
| "iter_strs (ElemMatchIn ws) = [''$elemMatch'']"
| "iter_strs (RegexI s) = [''$regex'', ''$options'']"
| "iter_strs (In v) = [''$in'']"
| "iter_strs (Range lo hi) = [''$gte'', ''$lte'']"

text \<open>\<open>re.findall("\d+", s)\<close>: the maximal runs of digits, left to right.\<close>

definition is_digit :: "char \<Rightarrow> bool" where
  "is_digit c = (let n = (of_char c :: nat) in 48 \<le> n \<and> n \<le> 57)"

fun digit_runs_from :: "string \<Rightarrow> string \<Rightarrow> string list" where
  "digit_runs_from cur [] = (if cur = [] then [] else [cur])"
| "digit_runs_from cur (c # cs) =
     (if is_digit c then digit_runs_from (cur @ [c]) cs
      else if cur = [] then digit_runs_from [] cs
      else cur # digit_runs_from [] cs)"

definition digit_runs :: "string \<Rightarrow> string list" where
  "digit_runs s = digit_runs_from [] s"

text \<open>The value of a run of digits; Python's integers are unbounded.\<close>

definition int_of_digits :: "string \<Rightarrow> int" where
  "int_of_digits s = foldl (\<lambda>a c. 10 * a + (int (of_char c) - 48)) 0 s"

text \<open>
  \<open>int(value)\<close> itself: CPython refuses a decimal string of more digits than
  \<open>sys.get_int_max_str_digits()\<close>, 4300 unless the interpreter is told otherwise,
  with a \<open>ValueError\<close>; leading zeros count. The list comprehension
  \<open>[int(value) for value in values]\<close> stops at the first run that is refused.
\<close>

definition int_max_str_digits :: nat where
  "int_max_str_digits = 4300"

definition py_int :: "string \<Rightarrow> error + int" where
  "py_int s = (if int_max_str_digits < length s then Inl PyValueError else Inr (int_of_digits s))"

fun py_ints :: "string list \<Rightarrow> error + int list" where
  "py_ints [] = Inr []"
| "py_ints (s # ss) =
     (case py_int s of
        Inl e \<Rightarrow> Inl e
      | Inr v \<Rightarrow> (case py_ints ss of Inl e \<Rightarrow> Inl e | Inr vs \<Rightarrow> Inr (v # vs)))"

text \<open>\<open>min(values)\<close> and \<open>max(values)\<close>, a \<open>ValueError\<close> on the empty list.\<close>

fun py_min :: "int list \<Rightarrow> error + int" where
  "py_min [] = Inl PyValueError"
| "py_min (v # vs) = Inr (fold min vs v)"

fun py_max :: "int list \<Rightarrow> error + int" where
  "py_max [] = Inl PyValueError"
| "py_max (v # vs) = Inr (fold max vs v)"

text \<open>One turn of the loop \<open>for k in fields.keys()\<close>, on the copy \<open>nfields\<close>.\<close>

definition search_step ::
  "string \<Rightarrow> (string, fragment) dict \<Rightarrow> error + (string, fragment) dict" where
  "search_step k nflds =
     (if k = ''description'' then
        (case dict_get nflds k of
           None \<Rightarrow> Inl PyKeyError
         | Some v \<Rightarrow>
             (case list_add v (get_or_empty nflds ''norm_description'') of
                Inl e \<Rightarrow> Inl e
              | Inr ws \<Rightarrow> Inr (dict_del (dict_set nflds ''norm_description'' (ElemMatchIn ws)) k)))
      else if k = ''fullname'' then
        (case dict_get nflds k of
           None \<Rightarrow> Inl PyKeyError
         | Some v \<Rightarrow> Inr (dict_set nflds k (RegexI (join_sp (iter_strs v)))))
      else if k = ''address'' then
        (case dict_get nflds k of
           None \<Rightarrow> Inl PyKeyError
         | Some v \<Rightarrow>
             (case list_add v (get_or_empty nflds ''norm_address'') of
                Inl e \<Rightarrow> Inl e
              | Inr ws \<Rightarrow> Inr (dict_del (dict_set nflds ''norm_address'' (ElemMatchIn ws)) k)))
      else if k \<in> set [''timestamp'', ''level''] then
        (case dict_get nflds k of
           None \<Rightarrow> Inl PyKeyError
         | Some v \<Rightarrow> Inr (dict_set nflds k (In v)))
      else if k = ''price'' then
        (case dict_get nflds k of
           None \<Rightarrow> Inl PyKeyError
         | Some v \<Rightarrow>
             (let joined_price = join_sp (iter_strs v)
              in (case py_ints (digit_runs joined_price) of
                    Inl e \<Rightarrow> Inl e
                  | Inr vals \<Rightarrow>
                      (case py_min vals of
                         Inl e \<Rightarrow> Inl e
                       | Inr lo \<Rightarrow>
                           (case py_max vals of
                              Inl e \<Rightarrow> Inl e
                            | Inr hi \<Rightarrow> Inr (dict_set nflds k (Range lo hi)))))))
      else Inr nflds)"

fun search_loop ::
  "string list \<Rightarrow> (string, fragment) dict \<Rightarrow> error + (string, fragment) dict" where
  "search_loop [] nflds = Inr nflds"
| "search_loop (k # ks) nflds =
     (case search_step k nflds of
        Inl e \<Rightarrow> Inl e
      | Inr nflds' \<Rightarrow> search_loop ks nflds')"

definition fix_search_fields ::
  "(string, string list) dict \<Rightarrow> error + (string, fragment) dict" where
  "fix_search_fields flds =
     search_loop (dict_keys flds) (map (\<lambda>kv. (fst kv, Lit (snd kv))) flds)"

section \<open>Field Transformer, insertion mode: \<open>fix_insertion_fields\<close>\<close>

text \<open>
  A stored document holds buckets of words and the date stamp, a string. The
  lemmatiser \<open>normalizer\<close> (the method \<open>Chat.normalize\<close>, which runs spaCy) and
  the formatted date \<open>now\<close> come from outside and are parameters.
\<close>

datatype docval = WordList "string list" | Stamp string

definition fix_insertion_fields ::
  "(string \<Rightarrow> string list) \<Rightarrow> string \<Rightarrow> (string, string list) dict \<Rightarrow> string
     \<Rightarrow> error + (string, docval) dict" where
  "fix_insertion_fields normalizer now flds collection =
     (if collection = ''appartments''
         \<and> card ({''address'', ''price''} \<inter> set (dict_keys flds)) \<noteq> 2
      then Inl (MissingRequiredFieldError PriceAndAddress)
      else if collection = ''requests''
         \<and> card ({''fullname''} \<inter> set (dict_keys flds)) \<noteq> 1
      then Inl (MissingRequiredFieldError FullName)
      else
        (let nflds = map (\<lambda>kv. (fst kv, WordList (snd kv))) flds;
             description = (case dict_get flds ''description'' of None \<Rightarrow> [] | Some ws \<Rightarrow> ws);
             description' = (if description \<noteq> [] then normalizer (join_sp description) else description);
             nflds1 = (if description \<noteq> []
                       then dict_set nflds ''norm_description'' (WordList description')
                       else nflds);
             address = (case dict_get flds ''address'' of None \<Rightarrow> [] | Some ws \<Rightarrow> ws);
             address' = (if address \<noteq> [] then normalizer (join_sp address) else address);
             nflds2 = (if address \<noteq> []
                       then dict_set nflds1 ''norm_description'' (WordList address')
                       else nflds1);
             tags = description' @ address';
             nflds3 = (if tags \<noteq> [] then dict_set nflds2 ''tags'' (WordList tags) else nflds2)
         in Inr (dict_set nflds3 ''timestamp'' (Stamp now))))"

section \<open>Intent Resolver: \<open>make_query\<close>\<close>

text \<open>
  The two classifications at the head of \<open>make_query\<close>, and the storage call it
  ends with: \<open>db[collection].find(fields)\<close> or \<open>db[collection].insert_one(fields)\<close>,
  returned here as a value.
\<close>

definition collection_of :: "patterns \<Rightarrow> string \<Rightarrow> error + string" where
  "collection_of p word =
     (if word \<in> set (realty p) then Inr ''appartments''
      else if word \<in> set (worker p) then Inr ''workers''
      else if word \<in> set (request p) then Inr ''requests''
      else Inl UnknownTargetError)"

definition func_of :: "patterns \<Rightarrow> string \<Rightarrow> error + string" where
  "func_of p verb =
     (if verb \<in> set (get_verbs p) then Inr ''select''
      else if verb \<in> set (insert_verbs p) then Inr ''insert''
      else Inl UnknownVerbError)"

datatype storage_call =
    Find string "(string, fragment) dict"
  | InsertOne string "(string, docval) dict"

definition make_query ::
  "patterns \<Rightarrow> (string \<Rightarrow> string list) \<Rightarrow> string \<Rightarrow> string \<Rightarrow> string \<Rightarrow> string
     \<Rightarrow> (string, string list) dict \<Rightarrow> error + (storage_call \<times> string \<times> string)" where
  "make_query p normalizer now status verb word flds =
     (case collection_of p word of
        Inl e \<Rightarrow> Inl e
      | Inr collection \<Rightarrow>
          (case func_of p verb of
             Inl e \<Rightarrow> Inl e
           | Inr func \<Rightarrow>
               (if status = ''customer'' \<and> func = ''select''
                   \<and> collection \<in> set [''appartments'', ''workers'']
                then (case fix_search_fields flds of
                        Inl e \<Rightarrow> Inl e
                      | Inr flds' \<Rightarrow> Inr (Find collection flds', collection, func))
                else if status = ''customer'' \<and> func = ''insert''
                   \<and> collection = ''requests''
                then (case fix_insertion_fields normalizer now flds collection of
                        Inl e \<Rightarrow> Inl e
                      | Inr flds' \<Rightarrow> Inr (InsertOne collection flds', collection, func))
                else if status = ''realtor'' \<and> func = ''select''
                   \<and> collection \<in> set [''requests'', ''appartments'']
                then (case fix_search_fields flds of
                        Inl e \<Rightarrow> Inl e
                      | Inr flds' \<Rightarrow> Inr (Find collection flds', collection, func))
                else if status = ''realtor'' \<and> func = ''insert''
                   \<and> collection = ''appartments''
                then (case fix_insertion_fields normalizer now flds collection of
                        Inl e \<Rightarrow> Inl e
                      | Inr flds' \<Rightarrow> Inr (InsertOne collection flds', collection, func))
                else Inl PermissionDeniedError)))"

section \<open>Response Renderer: \<open>format_response\<close>\<close>










section \<open>Notions used in the statements\<close>

text \<open>
  A stand-in for the lemmatiser in the concrete evaluations: it only cuts the text
  at spaces and drops empty words.
\<close>

definition sample_normalizer :: "string \<Rightarrow> string list" where
  "sample_normalizer s = filter (\<lambda>w. w \<noteq> []) (split_sp s)"

text \<open>
  The normalised word list of a bucket, as \<open>fix_insertion_fields\<close> holds it in its
  local variables \<open>description\<close> and \<open>address\<close>: empty for a missing or empty
  bucket, else the lemmas of the space-joined words.
\<close>

definition normalized_words ::
  "(string \<Rightarrow> string list) \<Rightarrow> (string, string list) dict \<Rightarrow> string \<Rightarrow> string list" where
  "normalized_words normalizer flds k =
     (case dict_get flds k of
        None \<Rightarrow> []
      | Some ws \<Rightarrow> if ws = [] then [] else normalizer (join_sp ws))"




text \<open>
  The texts that the pattern \<open>(v1|...)[\w\s]{0,20}(a1|...)\<close> matches: a verb, at most
  twenty filler characters, an action word; and a text that starts with such a phrase.
\<close>

definition action_phrase :: "string list \<Rightarrow> string list \<Rightarrow> string \<Rightarrow> bool" where
  "action_phrase vs as m =
     (\<exists>v f a. m = v @ f @ a \<and> v \<in> set vs \<and> a \<in> set as \<and> length f \<le> 20 \<and> list_all is_filler f)"


text \<open>
  The range fragment the specification asks for on a price bucket: from the least to
  the greatest of the integers read from the digit runs of the space-joined bucket.
\<close>

definition price_range :: "string list \<Rightarrow> fragment" where
  "price_range ws =
     (let vals = map int_of_digits (digit_runs (join_sp ws))
      in Range (Min (set vals)) (Max (set vals)))"

text \<open>
  A price bucket that the price branch can read: its space-joined text has a run of
  digits, and no run is longer than \<open>int\<close> accepts.
\<close>

definition readable_price :: "string list \<Rightarrow> bool" where
  "readable_price ws =
     (digit_runs (join_sp ws) \<noteq> []
      \<and> list_all (\<lambda>r. length r \<le> int_max_str_digits) (digit_runs (join_sp ws)))"

text \<open>
  What one turn of the loop of \<open>fix_search_fields\<close> leaves alone: every key but
  the one it is at and the two derived keys, and a derived key unless the turn is at
  its source field.
\<close>

definition step_keeps ::
  "string \<Rightarrow> (string, fragment) dict \<Rightarrow> (string, fragment) dict \<Rightarrow> bool" where
  "step_keeps k nf nf' =
     ((\<forall>k'. k' \<noteq> k \<longrightarrow> k' \<noteq> ''norm_description'' \<longrightarrow> k' \<noteq> ''norm_address''
          \<longrightarrow> dict_get nf' k' = dict_get nf k')
      \<and> (k \<noteq> ''description'' \<longrightarrow> dict_get nf' ''norm_description'' = dict_get nf ''norm_description'')
      \<and> (k \<noteq> ''address'' \<longrightarrow> dict_get nf' ''norm_address'' = dict_get nf ''norm_address''))"

text \<open>The six triples of role, operation and collection that the specification allows.\<close>

definition allowed :: "(string \<times> string \<times> string) list" where
  "allowed =
     [(''customer'', ''select'', ''appartments''), (''customer'', ''select'', ''workers''),
      (''customer'', ''insert'', ''requests''), (''realtor'', ''select'', ''requests''),
      (''realtor'', ''select'', ''appartments''), (''realtor'', ''insert'', ''appartments'')]"

text \<open>The errors that come from the Python runtime and not from a \<open>raise\<close> of the program.\<close>

definition runtime_error :: "error \<Rightarrow> bool" where
  "runtime_error e = (e = PyKeyError \<or> e = PyTypeError \<or> e = PyValueError)"

section \<open>Properties of the Field Classifier\<close>

text \<open>
  C9. \<open>split_fields\<close> raises the malformed-query error for every non-empty word
  sequence whose first word is not a field keyword, and returns the empty bucket
  map, with no error, for the empty sequence.
\<close>

theorem split_fields_first_word:
  "(w \<notin> set (field_words p) \<longrightarrow> split_fields p (w # ws) = Inl MalformedQueryError)
   \<and> split_fields p [] = Inr []"
  by (simp add: split_fields_def)

theorem split_fields_first_word_witness:
  "''vulytsia'' \<notin> set (field_words sample_patterns)
   \<and> split_fields sample_patterns [''vulytsia'', ''tsina'', ''100''] = Inl MalformedQueryError
   \<and> split_fields sample_patterns [] = Inr []"
  using split_fields_first_word [of "''vulytsia''" sample_patterns "[''tsina'', ''100'']"]
  by (simp add: sample_patterns_def)

section \<open>Dictionaries\<close>

lemma dict_get_dict_set:
  "dict_get (dict_set d k v) k' = (if k' = k then Some v else dict_get d k')"
  by (induction d) (auto simp: dict_get_def)

lemma dict_get_map_val:
  "dict_get (map (\<lambda>kv. (fst kv, f (snd kv))) d) k = map_option f (dict_get d k)"
  by (induction d) (auto simp: dict_get_def)

lemma dict_get_dict_del:
  "dict_get (dict_del d k) k' = (if k' = k then None else dict_get d k')"
  by (induction d) (auto simp: dict_get_def dict_del_def)

lemma dict_get_in_keys: "k \<in> set (dict_keys d) \<Longrightarrow> \<exists>v. dict_get d k = Some v"
  by (induction d) (auto simp: dict_get_def dict_keys_def)

lemma dict_keys_dict_set:
  "set (dict_keys (dict_set d k v)) = insert k (set (dict_keys d))"
proof (induction d)
  case Nil
  show ?case by (simp add: dict_keys_def)
next
  case (Cons kv d)
  obtain k' v' where kv: "kv = (k', v')" by (cases kv)
  from Cons have ih: "set (map fst (dict_set d k v)) = insert k (set (map fst d))"
    by (simp only: dict_keys_def)
  show ?case
    unfolding dict_keys_def kv
    by (cases "k' = k") (simp_all add: ih insert_commute del: set_map)
qed

lemma distinct_dict_set:
  "distinct (dict_keys d) \<Longrightarrow> distinct (dict_keys (dict_set d k v))"
proof (induction d)
  case Nil
  show ?case by (simp add: dict_keys_def)
next
  case (Cons kv d)
  obtain k' v' where kv: "kv = (k', v')" by (cases kv)
  from Cons.prems have d: "distinct (dict_keys d)" and n: "k' \<notin> set (dict_keys d)"
    by (simp_all add: dict_keys_def kv)
  show ?case
  proof (cases "k' = k")
    case True
    with Cons.prems show ?thesis by (simp add: kv dict_keys_def)
  next
    case False
    have "dict_keys (dict_set (kv # d) k v) = k' # dict_keys (dict_set d k v)"
      using False by (simp add: kv dict_keys_def)
    moreover have "k' \<notin> set (dict_keys (dict_set d k v))"
      using n False by (simp add: dict_keys_dict_set)
    ultimately show ?thesis using Cons.IH [OF d] by simp
  qed
qed


section \<open>Properties of the insertion-mode transformer\<close>

lemma card_two_inter:
  "a \<noteq> b \<Longrightarrow> (card ({a, b} \<inter> K) = 2) = (a \<in> K \<and> b \<in> K)"
  by (auto simp: Int_insert_left card_insert_if)

lemma card_one_inter: "(card ({a} \<inter> K) = 1) = (a \<in> K)"
  by (auto simp: Int_insert_left)

text \<open>
  C4. \<open>fix_insertion_fields\<close> raises the missing-required-field error, and so
  builds no document, whenever the collection is \<open>appartments\<close> and the field map
  lacks \<open>address\<close> or \<open>price\<close>, and whenever the collection is \<open>requests\<close> and the
  field map lacks \<open>fullname\<close>; when the required fields are there it raises nothing
  and returns a document.
\<close>

theorem fix_insertion_fields_required:
  "((collection = ''appartments''
      \<and> (''address'' \<notin> set (dict_keys flds) \<or> ''price'' \<notin> set (dict_keys flds)))
     \<longrightarrow> fix_insertion_fields normalizer now flds collection
           = Inl (MissingRequiredFieldError PriceAndAddress))
   \<and> ((collection = ''requests'' \<and> ''fullname'' \<notin> set (dict_keys flds))
     \<longrightarrow> fix_insertion_fields normalizer now flds collection
           = Inl (MissingRequiredFieldError FullName))
   \<and> ((collection = ''appartments''
        \<longrightarrow> ''address'' \<in> set (dict_keys flds) \<and> ''price'' \<in> set (dict_keys flds))
      \<and> (collection = ''requests'' \<longrightarrow> ''fullname'' \<in> set (dict_keys flds))
     \<longrightarrow> (\<exists>doc. fix_insertion_fields normalizer now flds collection = Inr doc))"
  by (auto simp: fix_insertion_fields_def card_two_inter card_one_inter Let_def)

theorem fix_insertion_fields_required_witness:
  "fix_insertion_fields sample_normalizer ''04.11.26'' [(''address'', [''vul'', ''lisova''])] ''appartments''
     = Inl (MissingRequiredFieldError PriceAndAddress)
   \<and> fix_insertion_fields sample_normalizer ''04.11.26'' [(''address'', [''vul''])] ''requests''
     = Inl (MissingRequiredFieldError FullName)
   \<and> (\<exists>doc. fix_insertion_fields sample_normalizer ''04.11.26''
               [(''address'', [''vul'']), (''price'', [''100''])] ''appartments'' = Inr doc)"
  using
    fix_insertion_fields_required [of "''appartments''" "[(''address'', [''vul'', ''lisova''])]"
      sample_normalizer "''04.11.26''"]
    fix_insertion_fields_required [of "''requests''" "[(''address'', [''vul''])]"
      sample_normalizer "''04.11.26''"]
    fix_insertion_fields_required [of "''appartments''" "[(''address'', [''vul'']), (''price'', [''100''])]"
      sample_normalizer "''04.11.26''"]
  by (simp add: dict_keys_def)

text \<open>
  C6, as the code has it. When a description bucket is present and the address bucket
  is present and not empty, the document's \<open>norm_description\<close> is the normalised
  address word list, whatever the description gave; no \<open>norm_address\<close> is derived
  (a bucket of that name given by the caller stays as it was).
\<close>

theorem fix_insertion_fields_norm_description:
  assumes "fix_insertion_fields normalizer now flds collection = Inr doc"
    and "dict_get flds ''description'' = Some d"
    and "dict_get flds ''address'' = Some a"
    and "a \<noteq> []"
  shows "dict_get doc ''norm_description'' = Some (WordList (normalizer (join_sp a)))
       \<and> dict_get doc ''norm_address'' = map_option WordList (dict_get flds ''norm_address'')"
  using assms
  by (auto simp: fix_insertion_fields_def Let_def dict_get_dict_set dict_get_map_val
           split: if_splits)

theorem fix_insertion_fields_norm_description_witness:
  "fix_insertion_fields sample_normalizer ''04.11.26''
       [(''description'', [''svitla'', ''kimnata'']), (''address'', [''vul'', ''lisova'']),
        (''price'', [''100''])]
       ''appartments''
   = Inr [(''description'', WordList [''svitla'', ''kimnata'']),
          (''address'', WordList [''vul'', ''lisova'']),
          (''price'', WordList [''100'']),
          (''norm_description'', WordList [''vul'', ''lisova'']),
          (''tags'', WordList [''svitla'', ''kimnata'', ''vul'', ''lisova'']),
          (''timestamp'', Stamp ''04.11.26'')]
   \<and> dict_get [(''description'', WordList [''svitla'', ''kimnata'']),
          (''address'', WordList [''vul'', ''lisova'']),
          (''price'', WordList [''100'']),
          (''norm_description'', WordList [''vul'', ''lisova'']),
          (''tags'', WordList [''svitla'', ''kimnata'', ''vul'', ''lisova'']),
          (''timestamp'', Stamp ''04.11.26'')] ''norm_description''
     = Some (WordList (sample_normalizer (join_sp [''vul'', ''lisova''])))"
proof -
  have e: "fix_insertion_fields sample_normalizer ''04.11.26''
       [(''description'', [''svitla'', ''kimnata'']), (''address'', [''vul'', ''lisova'']),
        (''price'', [''100''])]
       ''appartments''
   = Inr [(''description'', WordList [''svitla'', ''kimnata'']),
          (''address'', WordList [''vul'', ''lisova'']),
          (''price'', WordList [''100'']),
          (''norm_description'', WordList [''vul'', ''lisova'']),
          (''tags'', WordList [''svitla'', ''kimnata'', ''vul'', ''lisova'']),
          (''timestamp'', Stamp ''04.11.26'')]"
    by code_simp
  have d: "dict_get [(''description'', [''svitla'', ''kimnata'']), (''address'', [''vul'', ''lisova'']),
        (''price'', [''100''])] ''description'' = Some [''svitla'', ''kimnata'']"
    by (simp add: dict_get_def)
  have a: "dict_get [(''description'', [''svitla'', ''kimnata'']), (''address'', [''vul'', ''lisova'']),
        (''price'', [''100''])] ''address'' = Some [''vul'', ''lisova'']"
    by (simp add: dict_get_def)
  have n: "[''vul'', ''lisova''] \<noteq> ([] :: string list)" by simp
  from fix_insertion_fields_norm_description [OF e d a n] e show ?thesis by simp
qed

text \<open>
  The claim as it is written fails where the address bucket is present and empty
  (the address keyword was the last word of the query): the guard \<open>if address:\<close>
  skips the second store, and \<open>norm_description\<close> keeps the description's lemmas,
  while the normalised address word list is empty.
\<close>

theorem fix_insertion_fields_norm_description_counterexample:
  "fix_insertion_fields sample_normalizer ''04.11.26''
       [(''description'', [''svitla'']), (''price'', [''100'']), (''address'', [])] ''appartments''
   = Inr [(''description'', WordList [''svitla'']),
          (''price'', WordList [''100'']),
          (''address'', WordList []),
          (''norm_description'', WordList [''svitla'']),
          (''tags'', WordList [''svitla'']),
          (''timestamp'', Stamp ''04.11.26'')]
   \<and> normalized_words sample_normalizer
         [(''description'', [''svitla'']), (''price'', [''100'']), (''address'', [])] ''address'' = []"
  by code_simp

text \<open>
  C7, as the code has it. The concatenation of the normalised description words and
  the normalised address words, in that order, is stored under \<open>tags\<close> when it is
  not empty; when it is empty nothing is stored under \<open>tags\<close>, so the document has
  a \<open>tags\<close> field exactly when the field map had a bucket of that name, unchanged.
\<close>

theorem fix_insertion_fields_tags:
  assumes "fix_insertion_fields normalizer now flds collection = Inr doc"
    and "tags = normalized_words normalizer flds ''description''
              @ normalized_words normalizer flds ''address''"
  shows "(tags \<noteq> [] \<longrightarrow> dict_get doc ''tags'' = Some (WordList tags))
       \<and> (tags = [] \<longrightarrow> dict_get doc ''tags'' = map_option WordList (dict_get flds ''tags''))"
  using assms
  by (auto simp: fix_insertion_fields_def Let_def dict_get_dict_set dict_get_map_val
           normalized_words_def
           split: if_splits option.splits)

theorem fix_insertion_fields_tags_witness:
  "fix_insertion_fields sample_normalizer ''04.11.26''
       [(''description'', [''svitla'', ''kimnata'']), (''address'', [''vul'', ''lisova'']),
        (''price'', [''100''])]
       ''appartments''
   = Inr [(''description'', WordList [''svitla'', ''kimnata'']),
          (''address'', WordList [''vul'', ''lisova'']),
          (''price'', WordList [''100'']),
          (''norm_description'', WordList [''vul'', ''lisova'']),
          (''tags'', WordList [''svitla'', ''kimnata'', ''vul'', ''lisova'']),
          (''timestamp'', Stamp ''04.11.26'')]
   \<and> dict_get [(''description'', WordList [''svitla'', ''kimnata'']),
          (''address'', WordList [''vul'', ''lisova'']),
          (''price'', WordList [''100'']),
          (''norm_description'', WordList [''vul'', ''lisova'']),
          (''tags'', WordList [''svitla'', ''kimnata'', ''vul'', ''lisova'']),
          (''timestamp'', Stamp ''04.11.26'')] ''tags''
     = Some (WordList (normalized_words sample_normalizer [(''description'', [''svitla'', ''kimnata'']), (''address'', [''vul'', ''lisova'']),
        (''price'', [''100''])] ''description''
                       @ normalized_words sample_normalizer [(''description'', [''svitla'', ''kimnata'']), (''address'', [''vul'', ''lisova'']),
        (''price'', [''100''])] ''address''))
   \<and> normalized_words sample_normalizer [(''description'', [''svitla'', ''kimnata'']), (''address'', [''vul'', ''lisova'']),
        (''price'', [''100''])] ''description''
       @ normalized_words sample_normalizer [(''description'', [''svitla'', ''kimnata'']), (''address'', [''vul'', ''lisova'']),
        (''price'', [''100''])] ''address''
     = [''svitla'', ''kimnata'', ''vul'', ''lisova'']"
proof -
  have e: "fix_insertion_fields sample_normalizer ''04.11.26''
       [(''description'', [''svitla'', ''kimnata'']), (''address'', [''vul'', ''lisova'']),
        (''price'', [''100''])]
       ''appartments''
   = Inr [(''description'', WordList [''svitla'', ''kimnata'']),
          (''address'', WordList [''vul'', ''lisova'']),
          (''price'', WordList [''100'']),
          (''norm_description'', WordList [''vul'', ''lisova'']),
          (''tags'', WordList [''svitla'', ''kimnata'', ''vul'', ''lisova'']),
          (''timestamp'', Stamp ''04.11.26'')]"
    by code_simp
  have t: "normalized_words sample_normalizer [(''description'', [''svitla'', ''kimnata'']), (''address'', [''vul'', ''lisova'']),
        (''price'', [''100''])] ''description''
       @ normalized_words sample_normalizer [(''description'', [''svitla'', ''kimnata'']), (''address'', [''vul'', ''lisova'']),
        (''price'', [''100''])] ''address''
     = [''svitla'', ''kimnata'', ''vul'', ''lisova'']"
    by code_simp
  from fix_insertion_fields_tags [OF e t [symmetric]] e t show ?thesis by simp
qed

text \<open>
  The claim as it is written fails on a field map that has a \<open>tags\<close> bucket of its
  own and neither description nor address: the concatenation is empty and the
  document still has a \<open>tags\<close> field, the caller's.
\<close>

theorem fix_insertion_fields_tags_counterexample:
  "fix_insertion_fields sample_normalizer ''04.11.26''
       [(''fullname'', [''ivan'']), (''tags'', [''terminovo''])] ''requests''
   = Inr [(''fullname'', WordList [''ivan'']),
          (''tags'', WordList [''terminovo'']),
          (''timestamp'', Stamp ''04.11.26'')]
   \<and> normalized_words sample_normalizer [(''fullname'', [''ivan'']), (''tags'', [''terminovo''])] ''description''
       @ normalized_words sample_normalizer [(''fullname'', [''ivan'']), (''tags'', [''terminovo''])] ''address'' = []"
  by code_simp

section \<open>Properties of the Intent Resolver\<close>

lemma collection_of_cases:
  "collection_of p word = Inr c \<Longrightarrow> c = ''appartments'' \<or> c = ''workers'' \<or> c = ''requests''"
  by (auto simp: collection_of_def split: if_splits)

lemma func_of_cases:
  "func_of p verb = Inr f \<Longrightarrow> f = ''select'' \<or> f = ''insert''"
  by (auto simp: func_of_def split: if_splits)

lemma list_add_error: "list_add a b = Inl e \<Longrightarrow> runtime_error e"
  by (cases "(a, b)" rule: list_add.cases) (auto simp: runtime_error_def)

lemma py_min_error: "py_min vs = Inl e \<Longrightarrow> runtime_error e"
  by (cases vs) (auto simp: runtime_error_def)

lemma py_max_error: "py_max vs = Inl e \<Longrightarrow> runtime_error e"
  by (cases vs) (auto simp: runtime_error_def)

lemma py_int_error: "py_int r = Inl e \<Longrightarrow> runtime_error e"
  by (auto simp: py_int_def runtime_error_def split: if_splits)

lemma py_ints_error: "py_ints rs = Inl e \<Longrightarrow> runtime_error e"
proof (induction rs)
  case Nil
  then show ?case by simp
next
  case (Cons r rs)
  show ?case
  proof (cases "py_int r")
    case (Inl e')
    with Cons.prems have "e' = e" by simp
    with Inl show ?thesis by (auto dest: py_int_error)
  next
    case (Inr v)
    with Cons.prems have "py_ints rs = Inl e" by (auto split: sum.splits)
    then show ?thesis by (rule Cons.IH)
  qed
qed

lemma search_step_error:
  assumes "search_step k nf = Inl e"
  shows "runtime_error e"
proof -
  have key: "runtime_error PyKeyError" by (simp add: runtime_error_def)
  show ?thesis
  proof (cases "k = ''description''")
    case True
    with assms key show ?thesis
      by (auto simp: search_step_def split: option.splits sum.splits dest: list_add_error)
  next
    case n1: False
    show ?thesis
    proof (cases "k = ''fullname''")
      case True
      with assms key show ?thesis
        by (auto simp: search_step_def split: option.splits)
    next
      case n2: False
      show ?thesis
      proof (cases "k = ''address''")
        case True
        with assms key show ?thesis
          by (auto simp: search_step_def split: option.splits sum.splits dest: list_add_error)
      next
        case n3: False
        show ?thesis
        proof (cases "k = ''timestamp'' \<or> k = ''level''")
          case True
          with assms key n1 n2 n3 show ?thesis
            by (auto simp: search_step_def split: option.splits)
        next
          case n4: False
          show ?thesis
          proof (cases "k = ''price''")
            case True
            with assms key show ?thesis
              by (auto simp: search_step_def Let_def split: option.splits sum.splits
                    dest: py_ints_error py_min_error py_max_error)
          next
            case False
            with assms n1 n2 n3 n4 show ?thesis
              by (simp add: search_step_def)
          qed
        qed
      qed
    qed
  qed
qed

lemma search_loop_error: "search_loop ks nf = Inl e \<Longrightarrow> runtime_error e"
proof (induction ks arbitrary: nf)
  case Nil
  then show ?case by simp
next
  case (Cons k ks)
  show ?case
  proof (cases "search_step k nf")
    case (Inl e')
    with Cons.prems have "e' = e" by simp
    with Inl show ?thesis by (auto dest: search_step_error)
  next
    case (Inr nf')
    with Cons.prems have "search_loop ks nf' = Inl e" by simp
    then show ?thesis by (rule Cons.IH)
  qed
qed

lemma fix_search_fields_not_denied: "fix_search_fields flds \<noteq> Inl PermissionDeniedError"
proof
  assume "fix_search_fields flds = Inl PermissionDeniedError"
  then have "runtime_error PermissionDeniedError"
    unfolding fix_search_fields_def by (rule search_loop_error)
  then show False by (simp add: runtime_error_def)
qed

lemma fix_insertion_fields_not_denied:
  "fix_insertion_fields nz now flds c \<noteq> Inl PermissionDeniedError"
  by (simp add: fix_insertion_fields_def Let_def)

lemma sum_case_not_denied:
  "r \<noteq> Inl PermissionDeniedError \<Longrightarrow>
   (case r of Inl e \<Rightarrow> Inl e | Inr x \<Rightarrow> Inr (g x)) \<noteq> Inl PermissionDeniedError"
  by (cases r) simp_all

text \<open>
  C1, as the code has it. For a role that is \<open>customer\<close> or \<open>realtor\<close>, and any
  verb and target word that classify to an operation and a collection,
  \<open>make_query\<close> raises the permission error exactly when the triple is not one of
  the six allowed ones. For each of the six it runs the field transformer of the
  operation, and what it returns is decided by the transformer: when the transformer
  returns the transformed fields, the storage call on them (\<open>find\<close> on the
  collection for \<open>select\<close>, \<open>insert_one\<close> on the collection for \<open>insert\<close>)
  with the collection and the operation; when the transformer raises, its error, and
  no storage call.
\<close>

theorem make_query_permission_matrix:
  assumes "status = ''customer'' \<or> status = ''realtor''"
    and "collection_of p word = Inr collection"
    and "func_of p verb = Inr func"
  shows "((make_query p normalizer now status verb word flds = Inl PermissionDeniedError)
           = ((status, func, collection) \<notin> set allowed))
       \<and> ((status, func, collection) \<in> set allowed \<and> func = ''select'' \<longrightarrow>
          make_query p normalizer now status verb word flds
            = (case fix_search_fields flds of
                 Inl e \<Rightarrow> Inl e
               | Inr nflds \<Rightarrow> Inr (Find collection nflds, collection, func)))
       \<and> ((status, func, collection) \<in> set allowed \<and> func = ''insert'' \<longrightarrow>
          make_query p normalizer now status verb word flds
            = (case fix_insertion_fields normalizer now flds collection of
                 Inl e \<Rightarrow> Inl e
               | Inr doc \<Rightarrow> Inr (InsertOne collection doc, collection, func)))"
proof -
  let ?find = "case fix_search_fields flds of
                 Inl e \<Rightarrow> Inl e
               | Inr nflds \<Rightarrow> Inr (Find collection nflds, collection, func)"
  let ?insert = "case fix_insertion_fields normalizer now flds collection of
                 Inl e \<Rightarrow> Inl e
               | Inr doc \<Rightarrow> Inr (InsertOne collection doc, collection, func)"
  have mq: "make_query p normalizer now status verb word flds =
      (if status = ''customer'' \<and> func = ''select''
                   \<and> collection \<in> set [''appartments'', ''workers'']
                then ?find
                else if status = ''customer'' \<and> func = ''insert''
                   \<and> collection = ''requests''
                then ?insert
                else if status = ''realtor'' \<and> func = ''select''
                   \<and> collection \<in> set [''requests'', ''appartments'']
                then ?find
                else if status = ''realtor'' \<and> func = ''insert''
                   \<and> collection = ''appartments''
                then ?insert
                else Inl PermissionDeniedError)"
    by (simp add: make_query_def assms(2,3))
  have nf: "(case fix_search_fields flds of
                 Inl e \<Rightarrow> Inl e
               | Inr nflds \<Rightarrow> Inr (Find c nflds, c, f)) \<noteq> Inl PermissionDeniedError" for c f
    by (rule sum_case_not_denied) (rule fix_search_fields_not_denied)
  have ni: "(case fix_insertion_fields normalizer now flds c' of
                 Inl e \<Rightarrow> Inl e
               | Inr doc \<Rightarrow> Inr (InsertOne c doc, c, f)) \<noteq> Inl PermissionDeniedError" for c c' f
    by (rule sum_case_not_denied) (rule fix_insertion_fields_not_denied)
  from assms(1) collection_of_cases[OF assms(2)] func_of_cases[OF assms(3)]
  show ?thesis
    unfolding mq
    by (elim disjE) (simp_all add: allowed_def nf ni)
qed

theorem make_query_permission_matrix_witness:
  "make_query sample_patterns sample_normalizer ''04.11.26'' ''customer'' ''dodaty'' ''kvartyra''
       [(''address'', [''vul'']), (''price'', [''100''])] = Inl PermissionDeniedError
   \<and> (''customer'', ''insert'', ''appartments'') \<notin> set allowed
   \<and> make_query sample_patterns sample_normalizer ''04.11.26'' ''realtor'' ''dodaty'' ''kvartyra''
       [(''address'', [''vul'']), (''price'', [''100''])]
     = Inr (InsertOne ''appartments''
              [(''address'', WordList [''vul'']), (''price'', WordList [''100'']),
               (''norm_description'', WordList [''vul'']), (''tags'', WordList [''vul'']),
               (''timestamp'', Stamp ''04.11.26'')],
            ''appartments'', ''insert'')
   \<and> (''realtor'', ''insert'', ''appartments'') \<in> set allowed
   \<and> make_query sample_patterns sample_normalizer ''04.11.26'' ''customer'' ''pokazaty'' ''kvartyra''
       [(''address'', [''vul'']), (''price'', [''100''])]
     = Inr (Find ''appartments''
              [(''price'', Range 100 100), (''norm_address'', ElemMatchIn [''vul''])],
            ''appartments'', ''select'')
   \<and> (''customer'', ''select'', ''appartments'') \<in> set allowed"
proof -
  have c: "collection_of sample_patterns ''kvartyra'' = Inr ''appartments''"
    by (simp add: collection_of_def sample_patterns_def)
  have f: "func_of sample_patterns ''dodaty'' = Inr ''insert''"
    by (simp add: func_of_def sample_patterns_def)
  have g: "func_of sample_patterns ''pokazaty'' = Inr ''select''"
    by (simp add: func_of_def sample_patterns_def)
  have s1: "''customer'' = ''customer'' \<or> ''customer'' = ''realtor''" by simp
  have s2: "''realtor'' = ''customer'' \<or> ''realtor'' = ''realtor''" by simp
  have a1: "(''customer'', ''insert'', ''appartments'') \<notin> set allowed"
    by (simp add: allowed_def)
  have a2: "(''realtor'', ''insert'', ''appartments'') \<in> set allowed"
    by (simp add: allowed_def)
  have a3: "(''customer'', ''select'', ''appartments'') \<in> set allowed"
    by (simp add: allowed_def)
  have i: "fix_insertion_fields sample_normalizer ''04.11.26'' [(''address'', [''vul'']), (''price'', [''100''])] ''appartments''
     = Inr [(''address'', WordList [''vul'']), (''price'', WordList [''100'']),
            (''norm_description'', WordList [''vul'']), (''tags'', WordList [''vul'']),
            (''timestamp'', Stamp ''04.11.26'')]"
    by code_simp
  have q: "fix_search_fields [(''address'', [''vul'']), (''price'', [''100''])]
     = Inr [(''price'', Range 100 100), (''norm_address'', ElemMatchIn [''vul''])]"
    by code_simp
  from make_query_permission_matrix [OF s1 c f, of sample_normalizer "''04.11.26''" "[(''address'', [''vul'']), (''price'', [''100''])]"]
       make_query_permission_matrix [OF s2 c f, of sample_normalizer "''04.11.26''" "[(''address'', [''vul'']), (''price'', [''100''])]"]
       make_query_permission_matrix [OF s1 c g, of sample_normalizer "''04.11.26''" "[(''address'', [''vul'']), (''price'', [''100''])]"]
       a1 a2 a3 i q
  show ?thesis by simp
qed

text \<open>
  The claim as it is written fails on an allowed triple whose transformer raises:
  a realtor's insertion of a listing with no fields stops at the missing required
  fields, and a customer's search with a price bucket without a digit stops at
  \<open>min\<close> of the empty list. Neither reaches the storage call, and neither is the
  permission error.
\<close>

theorem make_query_permission_matrix_counterexample:
  "make_query sample_patterns sample_normalizer ''04.11.26'' ''realtor'' ''dodaty'' ''kvartyra'' []
     = Inl (MissingRequiredFieldError PriceAndAddress)
   \<and> (''realtor'', ''insert'', ''appartments'') \<in> set allowed
   \<and> make_query sample_patterns sample_normalizer ''04.11.26'' ''customer'' ''pokazaty'' ''kvartyra''
       [(''price'', [''deshevo''])]
     = Inl PyValueError
   \<and> (''customer'', ''select'', ''appartments'') \<in> set allowed"
  by code_simp

section \<open>Properties of the Response Renderer\<close>





section \<open>Strings: splitting, joining, replacing\<close>

lemma take_eq_iff: "(take (length m) s = m) = (\<exists>y. s = m @ y)"
  by (metis append_eq_conv_conj append_take_drop_id)







lemma occurs_iff: "occurs m s = (\<exists>x y. s = x @ m @ y)"
proof (induction s)
  case Nil
  show ?case by auto
next
  case (Cons c s)
  have "(\<exists>x y. c # s = x @ m @ y) = ((\<exists>y. c # s = m @ y) \<or> (\<exists>x y. s = x @ m @ y))"
  proof
    assume "\<exists>x y. c # s = x @ m @ y"
    then obtain x y where e: "c # s = x @ m @ y" by blast
    show "(\<exists>y. c # s = m @ y) \<or> (\<exists>x y. s = x @ m @ y)"
    proof (cases x)
      case Nil
      with e show ?thesis by auto
    next
      case (Cons c' x')
      with e have "s = x' @ m @ y" by simp
      then show ?thesis by blast
    qed
  next
    assume "(\<exists>y. c # s = m @ y) \<or> (\<exists>x y. s = x @ m @ y)"
    then show "\<exists>x y. c # s = x @ m @ y"
    proof
      assume "\<exists>y. c # s = m @ y"
      then show ?thesis by (metis append_Nil)
    next
      assume "\<exists>x y. s = x @ m @ y"
      then obtain x y where "s = x @ m @ y" by blast
      then have "c # s = (c # x) @ m @ y" by simp
      then show ?thesis by blast
    qed
  qed
  with Cons show ?case by (simp add: take_eq_iff)
qed

lemma replace_scan_no_occurrence:
  "\<not> occurs m s \<Longrightarrow> replace_scan m new s = s"
  by (induction s) auto

lemma take_prefix_part: "n \<le> length u \<Longrightarrow> take n (u @ v) = take n u"
  by simp

lemma replace_scan_first:
  assumes "m \<noteq> []"
  shows "\<not> occurs m (x @ butlast m) \<Longrightarrow>
         replace_scan m new (x @ m @ y) = x @ new @ replace_scan m new y"
proof (induction x)
  case Nil
  from assms obtain c m' where m: "m = c # m'" by (cases m) auto
  show ?case by (simp add: m)
next
  case (Cons c x)
  from Cons.prems have no: "take (length m) (c # x @ butlast m) \<noteq> m"
    and rest: "\<not> occurs m (x @ butlast m)" by simp_all
  have my: "m @ y = butlast m @ last m # y"
    using assms by simp
  have len: "length m \<le> length (c # x @ butlast m)" by simp
  have "take (length m) (c # x @ m @ y) = take (length m) ((c # x @ butlast m) @ last m # y)"
    by (simp add: my)
  also have "\<dots> = take (length m) (c # x @ butlast m)"
    using len by (rule take_prefix_part)
  finally have "take (length m) (c # x @ m @ y) \<noteq> m" using no by simp
  then have "replace_scan m new ((c # x) @ m @ y) = c # replace_scan m new (x @ m @ y)"
    by simp
  with Cons.IH [OF rest] show ?case by simp
qed

lemma replace_scan_parts:
  "m \<noteq> [] \<Longrightarrow> scan_parts m parts \<Longrightarrow> replace_scan m [] (occ_join m parts) = concat parts"
proof (induction m parts rule: occ_join.induct)
  case (1 m)
  show ?case by simp
next
  case (2 m p)
  then show ?case by (simp add: replace_scan_no_occurrence)
next
  case (3 m p q ps)
  then show ?case
    using replace_scan_first [of m p "[]" "occ_join m (q # ps)"] by simp
qed

lemma occurs_length: "occurs m s \<Longrightarrow> length m \<le> length s"
  by (auto simp: occurs_iff)

lemma first_occurrence:
  assumes "m \<noteq> []"
  shows "occurs m s \<Longrightarrow> \<exists>p rest. s = p @ m @ rest \<and> \<not> occurs m (p @ butlast m)"
proof (induction s)
  case Nil
  with assms show ?case by simp
next
  case (Cons c s)
  have short: "\<not> occurs m (butlast m)"
  proof
    assume "occurs m (butlast m)"
    then have "length m \<le> length (butlast m)" by (rule occurs_length)
    then have "length m \<le> length m - 1" by (simp only: length_butlast)
    moreover from assms have "length m \<noteq> 0" by simp
    ultimately show False by arith
  qed
  show ?case
  proof (cases "take (length m) (c # s) = m")
    case True
    then obtain rest where "c # s = m @ rest" by (auto simp: take_eq_iff)
    with short have "c # s = [] @ m @ rest \<and> \<not> occurs m ([] @ butlast m)" by simp
    then show ?thesis by blast
  next
    case False
    with Cons.prems have "occurs m s" by simp
    from Cons.IH [OF this] obtain p rest where
      s: "s = p @ m @ rest" and no: "\<not> occurs m (p @ butlast m)" by blast
    have my: "m @ rest = butlast m @ last m # rest" using assms by simp
    have len: "length m \<le> length (c # p @ butlast m)" by simp
    have "take (length m) (c # s) = take (length m) ((c # p @ butlast m) @ last m # rest)"
      by (simp add: s my)
    also have "\<dots> = take (length m) (c # p @ butlast m)"
      using len by (rule take_prefix_part)
    finally have "take (length m) (c # p @ butlast m) \<noteq> m" using False by simp
    with no have "\<not> occurs m ((c # p) @ butlast m)" by simp
    moreover have "c # s = (c # p) @ m @ rest" by (simp add: s)
    ultimately show ?thesis by blast
  qed
qed

lemma scan_parts_exist:
  assumes "m \<noteq> []"
  shows "\<exists>parts. parts \<noteq> [] \<and> s = occ_join m parts \<and> scan_parts m parts"
proof (induction s rule: length_induct)
  case (1 s)
  show ?case
  proof (cases "occurs m s")
    case False
    then have "[s] \<noteq> [] \<and> s = occ_join m [s] \<and> scan_parts m [s]" by simp
    then show ?thesis by blast
  next
    case True
    from first_occurrence [OF assms True] obtain p rest where
      s: "s = p @ m @ rest" and no: "\<not> occurs m (p @ butlast m)" by blast
    from s assms have "length rest < length s" by simp
    with 1 obtain parts where ps: "parts \<noteq> []" "rest = occ_join m parts" "scan_parts m parts"
      by blast
    then obtain q qs where q: "parts = q # qs" by (cases parts) auto
    have "p # parts \<noteq> [] \<and> s = occ_join m (p # parts) \<and> scan_parts m (p # parts)"
      using s no ps by (simp add: q)
    then show ?thesis by blast
  qed
qed


section \<open>The search for the action phrase\<close>


lemma first_prefix_Some:
  "first_prefix as s = Some a \<Longrightarrow> a \<in> set as \<and> take (length a) s = a"
  by (induction as) (auto split: if_splits)


lemma try_filler_Some:
  "try_filler as rest n = Some fa \<Longrightarrow>
     \<exists>k a. k \<le> n \<and> k \<le> length rest \<and> list_all is_filler (take k rest)
        \<and> first_prefix as (drop k rest) = Some a \<and> fa = take k rest @ a"
proof (induction n)
  case 0
  then show ?case by auto
next
  case (Suc n)
  show ?case
  proof (cases "Suc n \<le> length rest \<and> list_all is_filler (take (Suc n) rest)
                 \<and> first_prefix as (drop (Suc n) rest) \<noteq> None")
    case True
    then obtain a where a: "first_prefix as (drop (Suc n) rest) = Some a" by auto
    with True Suc.prems have "fa = take (Suc n) rest @ a" by simp
    with True a show ?thesis by blast
  next
    case False
    with Suc.prems have "try_filler as rest n = Some fa"
      by (auto split: if_splits option.splits)
    from Suc.IH [OF this] show ?thesis
      using le_Suc_eq by blast
  qed
qed

lemma match_here_Some:
  assumes "match_here vs as s = Some m"
  shows "action_phrase vs as m \<and> (\<exists>y. s = m @ y)"
  using assms
proof (induction vs)
  case Nil
  then show ?case by simp
next
  case (Cons v vs)
  show ?case
  proof (cases "take (length v) s = v \<and> try_filler as (drop (length v) s) 20 \<noteq> None")
    case True
    then obtain fa where fa: "try_filler as (drop (length v) s) 20 = Some fa" by auto
    with True Cons.prems have m: "m = v @ fa" by simp
    from try_filler_Some [OF fa] obtain k a where
      k: "k \<le> 20" "k \<le> length (drop (length v) s)"
         "list_all is_filler (take k (drop (length v) s))"
         "first_prefix as (drop k (drop (length v) s)) = Some a"
         "fa = take k (drop (length v) s) @ a"
      by blast
    from first_prefix_Some [OF k(4)] have a: "a \<in> set as"
      "take (length a) (drop k (drop (length v) s)) = a" by simp_all
    from a(2) obtain y where y: "drop k (drop (length v) s) = a @ y"
      by (auto simp: take_eq_iff)
    have s: "s = v @ take k (drop (length v) s) @ a @ y"
      using True y by (metis append_take_drop_id)
    have "action_phrase vs' as m" if "vs' = v # vs" for vs'
      unfolding action_phrase_def m k(5) that
      using a(1) k(1,2,3) by (intro exI [of _ v] exI [of _ "take k (drop (length v) s)"] exI [of _ a]) simp
    with s m k(5) show ?thesis by auto
  next
    case False
    with Cons.prems have "match_here vs as s = Some m"
      by (auto split: if_splits option.splits)
    from Cons.IH [OF this] show ?thesis
      by (auto simp: action_phrase_def)
  qed
qed


lemma search_action_Some:
  "search_action vs as s = Some m \<Longrightarrow> action_phrase vs as m \<and> (\<exists>x y. s = x @ m @ y)"
proof (induction s)
  case Nil
  then show ?case using match_here_Some [of vs as "[]" m] by auto
next
  case (Cons c s)
  show ?case
  proof (cases "match_here vs as (c # s)")
    case None
    with Cons.prems have "search_action vs as s = Some m" by simp
    from Cons.IH [OF this] obtain x y where "action_phrase vs as m" "s = x @ m @ y" by blast
    then have "action_phrase vs as m \<and> c # s = (c # x) @ m @ y" by simp
    then show ?thesis by blast
  next
    case (Some m')
    with Cons.prems have "m' = m" by simp
    with Some match_here_Some [of vs as "c # s" m] show ?thesis
      by (metis append_Nil)
  qed
qed


section \<open>Properties of the Action Locator\<close>




text \<open>
  C10, as the code has it. When the matched phrase is not empty,
  \<open>split_on_parts\<close> deletes every occurrence of it that a scan of the sentence from
  the left finds (each search resuming after the occurrence deleted), not only the span
  of the match, and the field words are the non-empty space-delimited pieces of what
  is left. In the statement the sentence is cut at these occurrences into \<open>parts\<close>;
  every sentence can be cut so, and what is left is the parts put together.
\<close>

theorem split_on_parts_deletes_all:
  assumes "search (join_sp ws) = Some m"
    and "m \<noteq> []"
  shows "(\<exists>parts. join_sp ws = occ_join m parts \<and> scan_parts m parts)
       \<and> (\<forall>parts. join_sp ws = occ_join m parts \<and> scan_parts m parts \<longrightarrow>
             (\<exists>vt. split_on_parts search ws
                = Inr (filter (\<lambda>v. v \<noteq> []) (split_sp (concat parts)), vt)))"
proof (intro conjI allI impI)
  show "\<exists>parts. join_sp ws = occ_join m parts \<and> scan_parts m parts"
    using scan_parts_exist [OF assms(2), of "join_sp ws"] by blast
next
  fix parts
  assume p: "join_sp ws = occ_join m parts \<and> scan_parts m parts"
  then have "str_replace m [] (join_sp ws) = concat parts"
    using assms(2) by (simp add: str_replace_def replace_scan_parts)
  with assms(1) show "\<exists>vt. split_on_parts search ws
                = Inr (filter (\<lambda>v. v \<noteq> []) (split_sp (concat parts)), vt)"
    by (simp add: split_on_parts_def Let_def)
qed

theorem split_on_parts_deletes_all_witness:
  "split_on_parts (search_action [''pokazaty''] [''kvartyra''])
       [''pokazaty'', ''kvartyra'', ''tsina'', ''1000'', ''pokazaty'', ''kvartyra'']
     = Inr ([''tsina'', ''1000''], (''pokazaty'', ''kvartyra''))
   \<and> join_sp [''pokazaty'', ''kvartyra'', ''tsina'', ''1000'', ''pokazaty'', ''kvartyra'']
     = occ_join ''pokazaty kvartyra'' [[], '' tsina 1000 '', []]"
proof -
  let ?S = "search_action [''pokazaty''] [''kvartyra'']"
  let ?ws = "[''pokazaty'', ''kvartyra'', ''tsina'', ''1000'', ''pokazaty'', ''kvartyra'']"
  let ?m = "''pokazaty kvartyra''"
  let ?parts = "[[], '' tsina 1000 '', []] :: string list"
  have m: "?S (join_sp ?ws) = Some ''pokazaty kvartyra''" by code_simp
  have ne: "''pokazaty kvartyra'' \<noteq> []" by simp
  have j: "join_sp ?ws = occ_join ''pokazaty kvartyra'' [[], '' tsina 1000 '', []]"
    by code_simp
  have sc: "scan_parts ''pokazaty kvartyra'' [[], '' tsina 1000 '', []]" by code_simp
  have e: "filter (\<lambda>v. v \<noteq> []) (split_sp (concat [[], '' tsina 1000 '', []]))
           = [''tsina'', ''1000'']" by code_simp
  have v: "split_on_parts ?S ?ws = Inr (x, vt) \<Longrightarrow> vt = (''pokazaty'', ''kvartyra'')" for x vt
    using m by (simp add: split_on_parts_def Let_def)
  from split_on_parts_deletes_all [of ?S ?ws ?m, OF m ne]
  have "\<exists>vt. split_on_parts ?S ?ws
           = Inr (filter (\<lambda>v. v \<noteq> []) (split_sp (concat ?parts)), vt)"
    using j sc by blast
  with e v j show ?thesis by auto
qed

text \<open>
  The claim as it is written fails where the text before and the text after a
  deleted occurrence join to the phrase again: here the phrase occurs twice in the
  sentence, both occurrences are deleted, and the returned field words still spell it.
\<close>

theorem split_on_parts_deletes_all_counterexample:
  "search_action [''pokazaty''] [''kvartyra'']
       (join_sp [''popokazaty'', ''nova'', ''kvartyrakazaty'', ''nova'', ''kvartyra'',
                 ''pokazaty'', ''nova'', ''kvartyra''])
     = Some ''pokazaty nova kvartyra''
   \<and> join_sp [''popokazaty'', ''nova'', ''kvartyrakazaty'', ''nova'', ''kvartyra'',
              ''pokazaty'', ''nova'', ''kvartyra'']
     = ''po'' @ ''pokazaty nova kvartyra'' @ ''kazaty nova kvartyra '' @ ''pokazaty nova kvartyra''
   \<and> split_on_parts (search_action [''pokazaty''] [''kvartyra''])
       [''popokazaty'', ''nova'', ''kvartyrakazaty'', ''nova'', ''kvartyra'',
        ''pokazaty'', ''nova'', ''kvartyra'']
     = Inr ([''pokazaty'', ''nova'', ''kvartyra''], (''pokazaty'', ''kvartyra''))
   \<and> join_sp [''pokazaty'', ''nova'', ''kvartyra''] = ''pokazaty nova kvartyra''"
  by code_simp


section \<open>Repeated field keywords\<close>

text \<open>
  The bucket map that \<open>split_fields\<close> returns holds each field name once, however
  often its keyword was used.
\<close>

lemma split_fields_loop_distinct:
  "split_fields_loop p query flds row = Inr (flds', row') \<Longrightarrow> distinct (dict_keys flds)
     \<Longrightarrow> distinct (dict_keys flds')"
proof (induction query arbitrary: flds row)
  case Nil
  then show ?case by simp
next
  case (Cons word query)
  show ?case
  proof (cases "word \<in> set (field_words p)")
    case True
    let ?f = "(case row of
              None \<Rightarrow> flds
            | Some (name, ws) \<Rightarrow>
                (let ins = (case dict_get flds name of None \<Rightarrow> [] | Some i \<Rightarrow> i)
                 in dict_set flds name (ws @ ins)))"
    have d: "distinct (dict_keys ?f)"
      using Cons.prems(2) by (auto simp: Let_def distinct_dict_set split: option.splits)
    from Cons.prems(1) True obtain name' where
      "split_fields_loop p query ?f (Some (name', [])) = Inr (flds', row')"
      by (auto simp: Let_def split: option.splits)
    from Cons.IH [OF this d] show ?thesis .
  next
    case False
    with Cons.prems(1) obtain name ws where
      "split_fields_loop p query flds (Some (name, ws @ [word])) = Inr (flds', row')"
      by (auto split: option.splits)
    from Cons.IH [OF this Cons.prems(2)] show ?thesis .
  qed
qed

lemma split_fields_keys_distinct:
  "split_fields p query = Inr flds \<Longrightarrow> distinct (dict_keys flds)"
proof -
  assume a: "split_fields p query = Inr flds"
  then obtain f row where l: "split_fields_loop p query [] None = Inr (f, row)"
    and r: "flds = (case row of None \<Rightarrow> f | Some (name, ws) \<Rightarrow> dict_set f name ws)"
    by (auto simp: split_fields_def split: sum.splits)
  have "distinct (dict_keys f)"
    using split_fields_loop_distinct [OF l] by (simp add: dict_keys_def)
  then show ?thesis
    unfolding r by (auto simp: distinct_dict_set split: option.splits)
qed

text \<open>
  C2. The claim asks that the runs of a repeated field keyword end up in one bucket,
  earlier run first. The code does not do that: the commit inside the loop puts the
  later run in front of the bucket, and the commit after the loop stores the last run
  alone, over the bucket. With the price keyword used twice, the \<open>100\<close> of the
  first run is lost; with a fourth keyword after it, the two runs are kept in reverse.
\<close>

theorem split_fields_repeated_keyword:
  "split_fields sample_patterns [''tsina'', ''100'', ''adresa'', ''vul'', ''tsina'', ''200'']
     = Inr [(''price'', [''200'']), (''address'', [''vul''])]
   \<and> split_fields sample_patterns
       [''tsina'', ''100'', ''adresa'', ''vul'', ''tsina'', ''200'', ''adresa'', ''lisova'']
     = Inr [(''price'', [''200'', ''100'']), (''address'', [''lisova''])]"
  by code_simp

section \<open>Properties of the search-mode transformer\<close>

lemma get_or_empty_cases:
  "dict_get nf k = None \<or> (\<exists>w. dict_get nf k = Some (Lit w)) \<Longrightarrow> \<exists>w. get_or_empty nf k = Lit w"
  by (auto simp: get_or_empty_def)

lemma get_or_empty_cong:
  "dict_get nf' k = dict_get nf k \<Longrightarrow> get_or_empty nf' k = get_or_empty nf k"
  by (simp add: get_or_empty_def)

lemma search_step_description:
  "dict_get nf ''description'' = Some (Lit w) \<Longrightarrow> get_or_empty nf ''norm_description'' = Lit i \<Longrightarrow>
   search_step ''description'' nf
     = Inr (dict_del (dict_set nf ''norm_description'' (ElemMatchIn (w @ i))) ''description'')"
  by (simp add: search_step_def)

lemma search_step_address:
  "dict_get nf ''address'' = Some (Lit w) \<Longrightarrow> get_or_empty nf ''norm_address'' = Lit i \<Longrightarrow>
   search_step ''address'' nf
     = Inr (dict_del (dict_set nf ''norm_address'' (ElemMatchIn (w @ i))) ''address'')"
  by (simp add: search_step_def)

lemma search_step_fullname:
  "dict_get nf ''fullname'' = Some v \<Longrightarrow>
   search_step ''fullname'' nf = Inr (dict_set nf ''fullname'' (RegexI (join_sp (iter_strs v))))"
  by (simp add: search_step_def)

lemma search_step_in:
  "k = ''timestamp'' \<or> k = ''level'' \<Longrightarrow> dict_get nf k = Some v \<Longrightarrow>
   search_step k nf = Inr (dict_set nf k (In v))"
  by (auto simp: search_step_def)

lemma fold_min_Min: "fold min vs v = Min (set (v # vs))"
  by (rule Min.set_eq_fold [symmetric])

lemma fold_max_Max: "fold max vs v = Max (set (v # vs))"
  by (rule Max.set_eq_fold [symmetric])

lemma py_min_Min: "vs \<noteq> [] \<Longrightarrow> py_min vs = Inr (Min (set vs))"
  by (cases vs) (simp_all add: fold_min_Min del: set_simps)

lemma py_max_Max: "vs \<noteq> [] \<Longrightarrow> py_max vs = Inr (Max (set vs))"
  by (cases vs) (simp_all add: fold_max_Max del: set_simps)

lemma py_ints_ok:
  "list_all (\<lambda>r. length r \<le> int_max_str_digits) rs \<Longrightarrow> py_ints rs = Inr (map int_of_digits rs)"
  by (induction rs) (simp_all add: py_int_def)

lemma search_step_price:
  "dict_get nf ''price'' = Some (Lit ws) \<Longrightarrow> readable_price ws \<Longrightarrow>
   search_step ''price'' nf = Inr (dict_set nf ''price'' (price_range ws))"
  by (simp add: search_step_def readable_price_def py_ints_ok py_min_Min py_max_Max
        price_range_def Let_def)

lemma search_step_other:
  "k \<noteq> ''description'' \<Longrightarrow> k \<noteq> ''fullname'' \<Longrightarrow> k \<noteq> ''address'' \<Longrightarrow> k \<noteq> ''timestamp''
   \<Longrightarrow> k \<noteq> ''level'' \<Longrightarrow> k \<noteq> ''price'' \<Longrightarrow> search_step k nf = Inr nf"
  by (simp add: search_step_def)

lemma search_step_effect:
  assumes lit: "k \<noteq> ''norm_description'' \<and> k \<noteq> ''norm_address'' \<longrightarrow> (\<exists>w. dict_get nf k = Some (Lit w))"
    and nd: "k = ''description'' \<longrightarrow> (\<exists>i. get_or_empty nf ''norm_description'' = Lit i)"
    and na: "k = ''address'' \<longrightarrow> (\<exists>i. get_or_empty nf ''norm_address'' = Lit i)"
    and pr: "k = ''price'' \<longrightarrow> dict_get nf ''price'' = Some (Lit ws) \<and> readable_price ws"
  shows "\<exists>nf'. search_step k nf = Inr nf' \<and> step_keeps k nf nf'
           \<and> (k = ''price'' \<longrightarrow> dict_get nf' ''price'' = Some (price_range ws))"
proof (cases "k = ''description''")
  case True
  with lit nd obtain w i where "dict_get nf ''description'' = Some (Lit w)"
    "get_or_empty nf ''norm_description'' = Lit i" by auto
  from search_step_description [OF this] True show ?thesis
    by (simp add: step_keeps_def dict_get_dict_del dict_get_dict_set)
next
  case n1: False
  show ?thesis
  proof (cases "k = ''address''")
    case True
    with lit na obtain w i where "dict_get nf ''address'' = Some (Lit w)"
      "get_or_empty nf ''norm_address'' = Lit i" by auto
    from search_step_address [OF this] True show ?thesis
      by (simp add: step_keeps_def dict_get_dict_del dict_get_dict_set)
  next
    case n2: False
    show ?thesis
    proof (cases "k = ''fullname''")
      case True
      with lit obtain w where "dict_get nf ''fullname'' = Some (Lit w)" by auto
      from search_step_fullname [OF this] True show ?thesis
        by (simp add: step_keeps_def dict_get_dict_set)
    next
      case n3: False
      show ?thesis
      proof (cases "k = ''timestamp'' \<or> k = ''level''")
        case True
        with lit obtain w where "dict_get nf k = Some (Lit w)" by auto
        from search_step_in [OF True this] True show ?thesis
          by (auto simp: step_keeps_def dict_get_dict_set)
      next
        case n4: False
        show ?thesis
        proof (cases "k = ''price''")
          case True
          with pr have "dict_get nf ''price'' = Some (Lit ws)" "readable_price ws"
            by simp_all
          from search_step_price [OF this] True show ?thesis
            by (simp add: step_keeps_def dict_get_dict_set)
        next
          case False
          with n1 n2 n3 n4 have "search_step k nf = Inr nf"
            by (simp add: search_step_other)
          with False show ?thesis by (simp add: step_keeps_def)
        qed
      qed
    qed
  qed
qed

lemma search_loop_price:
  assumes "distinct ks"
    and "\<forall>k \<in> set ks. k \<noteq> ''norm_description'' \<and> k \<noteq> ''norm_address''
           \<longrightarrow> (\<exists>w. dict_get nf k = Some (Lit w))"
    and "''description'' \<in> set ks \<longrightarrow> (\<exists>i. get_or_empty nf ''norm_description'' = Lit i)"
    and "''address'' \<in> set ks \<longrightarrow> (\<exists>i. get_or_empty nf ''norm_address'' = Lit i)"
    and "readable_price ws"
    and "dict_get nf ''price'' = Some (if ''price'' \<in> set ks then Lit ws else price_range ws)"
  shows "\<exists>nf'. search_loop ks nf = Inr nf' \<and> dict_get nf' ''price'' = Some (price_range ws)"
  using assms
proof (induction ks arbitrary: nf)
  case Nil
  then show ?case by simp
next
  case (Cons k ks)
  have "\<exists>nf'. search_step k nf = Inr nf' \<and> step_keeps k nf nf'
           \<and> (k = ''price'' \<longrightarrow> dict_get nf' ''price'' = Some (price_range ws))"
  proof (rule search_step_effect)
    show "k \<noteq> ''norm_description'' \<and> k \<noteq> ''norm_address'' \<longrightarrow> (\<exists>w. dict_get nf k = Some (Lit w))"
      using Cons.prems(2) by auto
    show "k = ''description'' \<longrightarrow> (\<exists>i. get_or_empty nf ''norm_description'' = Lit i)"
      using Cons.prems(3) by auto
    show "k = ''address'' \<longrightarrow> (\<exists>i. get_or_empty nf ''norm_address'' = Lit i)"
      using Cons.prems(4) by auto
    show "k = ''price'' \<longrightarrow> dict_get nf ''price'' = Some (Lit ws) \<and> readable_price ws"
      using Cons.prems(5,6) by auto
  qed
  then obtain nf1 where s: "search_step k nf = Inr nf1" and keep: "step_keeps k nf nf1"
    and p: "k = ''price'' \<longrightarrow> dict_get nf1 ''price'' = Some (price_range ws)" by blast
  from Cons.prems(1) have notin: "k \<notin> set ks" and d: "distinct ks" by simp_all
  have same: "dict_get nf1 k' = dict_get nf k'"
    if "k' \<noteq> k" "k' \<noteq> ''norm_description''" "k' \<noteq> ''norm_address''" for k'
    using keep that by (simp add: step_keeps_def)
  have i2: "\<forall>k' \<in> set ks. k' \<noteq> ''norm_description'' \<and> k' \<noteq> ''norm_address''
           \<longrightarrow> (\<exists>w. dict_get nf1 k' = Some (Lit w))"
  proof (intro ballI impI)
    fix k' assume k': "k' \<in> set ks" "k' \<noteq> ''norm_description'' \<and> k' \<noteq> ''norm_address''"
    with notin have "k' \<noteq> k" by auto
    with k' have "dict_get nf1 k' = dict_get nf k'" by (simp add: same)
    with Cons.prems(2) k' show "\<exists>w. dict_get nf1 k' = Some (Lit w)" by simp
  qed
  have i3: "''description'' \<in> set ks \<longrightarrow> (\<exists>i. get_or_empty nf1 ''norm_description'' = Lit i)"
  proof
    assume a: "''description'' \<in> set ks"
    with notin have "k \<noteq> ''description''" by auto
    with keep have "dict_get nf1 ''norm_description'' = dict_get nf ''norm_description''"
      by (simp add: step_keeps_def)
    then have "get_or_empty nf1 ''norm_description'' = get_or_empty nf ''norm_description''"
      by (rule get_or_empty_cong)
    with Cons.prems(3) a show "\<exists>i. get_or_empty nf1 ''norm_description'' = Lit i" by simp
  qed
  have i4: "''address'' \<in> set ks \<longrightarrow> (\<exists>i. get_or_empty nf1 ''norm_address'' = Lit i)"
  proof
    assume a: "''address'' \<in> set ks"
    with notin have "k \<noteq> ''address''" by auto
    with keep have "dict_get nf1 ''norm_address'' = dict_get nf ''norm_address''"
      by (simp add: step_keeps_def)
    then have "get_or_empty nf1 ''norm_address'' = get_or_empty nf ''norm_address''"
      by (rule get_or_empty_cong)
    with Cons.prems(4) a show "\<exists>i. get_or_empty nf1 ''norm_address'' = Lit i" by simp
  qed
  have i6: "dict_get nf1 ''price'' = Some (if ''price'' \<in> set ks then Lit ws else price_range ws)"
  proof (cases "k = ''price''")
    case True
    with p notin show ?thesis by simp
  next
    case False
    then have "dict_get nf1 ''price'' = dict_get nf ''price''"
      by (simp add: same)
    with Cons.prems(6) False show ?thesis by simp
  qed
  from Cons.IH [OF d i2 i3 i4 Cons.prems(5) i6] s show ?case by simp
qed

text \<open>
  C5, as the code has it. For every field map (a dict: its keys are distinct) with a
  price bucket whose space-joined text has at least one run of digits, none of them
  longer than the 4300 digits that \<open>int\<close> accepts, \<open>fix_search_fields\<close> returns
  a filter in which the price entry is the range from the least to the greatest of the
  integers read from the digit runs. The bucket \<open>vid 100 do 200 hrn\<close> gives the
  range from 100 to 200 and the bucket \<open>100\<close> gives the range from 100 to 100.
  Digits are \<open>0\<close> to \<open>9\<close>, the only characters below code point 256 that \<open>\d\<close>
  matches.
\<close>

theorem fix_search_fields_price:
  assumes "distinct (dict_keys flds)"
    and "dict_get flds ''price'' = Some ws"
    and "digit_runs (join_sp ws) \<noteq> []"
    and "list_all (\<lambda>r. length r \<le> int_max_str_digits) (digit_runs (join_sp ws))"
    and "vals = map int_of_digits (digit_runs (join_sp ws))"
  shows "\<exists>nflds. fix_search_fields flds = Inr nflds
           \<and> dict_get nflds ''price'' = Some (Range (Min (set vals)) (Max (set vals)))"
proof -
  let ?nf = "map (\<lambda>kv. (fst kv, Lit (snd kv))) flds"
  have g: "dict_get ?nf k = map_option Lit (dict_get flds k)" for k
    by (rule dict_get_map_val)
  have pk: "''price'' \<in> set (dict_keys flds)"
    using assms(2) by (auto simp: dict_get_def dict_keys_def dest: map_of_SomeD intro: rev_image_eqI)
  have "\<exists>nf'. search_loop (dict_keys flds) ?nf = Inr nf'
          \<and> dict_get nf' ''price'' = Some (price_range ws)"
  proof (rule search_loop_price)
    show "distinct (dict_keys flds)" by (rule assms(1))
    show "\<forall>k \<in> set (dict_keys flds). k \<noteq> ''norm_description'' \<and> k \<noteq> ''norm_address''
           \<longrightarrow> (\<exists>w. dict_get ?nf k = Some (Lit w))"
      using dict_get_in_keys [of _ flds] by (auto simp: g)
    show "''description'' \<in> set (dict_keys flds)
            \<longrightarrow> (\<exists>i. get_or_empty ?nf ''norm_description'' = Lit i)"
      by (cases "dict_get flds ''norm_description''") (auto intro!: get_or_empty_cases simp: g)
    show "''address'' \<in> set (dict_keys flds)
            \<longrightarrow> (\<exists>i. get_or_empty ?nf ''norm_address'' = Lit i)"
      by (cases "dict_get flds ''norm_address''") (auto intro!: get_or_empty_cases simp: g)
    show "readable_price ws" using assms(3,4) by (simp add: readable_price_def)
    show "dict_get ?nf ''price''
            = Some (if ''price'' \<in> set (dict_keys flds) then Lit ws else price_range ws)"
      using pk assms(2) by (simp add: g)
  qed
  then show ?thesis
    by (simp add: fix_search_fields_def price_range_def Let_def assms(5))
qed

theorem fix_search_fields_price_witness:
  "(\<exists>nflds. fix_search_fields [(''fullname'', [''ivan'']), (''price'', [''vid'', ''100'', ''do'', ''200'', ''hrn''])]
               = Inr nflds
            \<and> dict_get nflds ''price'' = Some (Range 100 200))
   \<and> (\<exists>nflds. fix_search_fields [(''price'', [''100''])] = Inr nflds
            \<and> dict_get nflds ''price'' = Some (Range 100 100))"
proof -
  let ?f1 = "[(''fullname'', [''ivan'']), (''price'', [''vid'', ''100'', ''do'', ''200'', ''hrn''])]"
  let ?f2 = "[(''price'', [''100''])]"
  have r1: "digit_runs (join_sp [''vid'', ''100'', ''do'', ''200'', ''hrn'']) = [''100'', ''200'']"
    by code_simp
  have r2: "digit_runs (join_sp [''100'']) = [''100'']"
    by code_simp
  have v1: "[100, 200] = map int_of_digits (digit_runs (join_sp [''vid'', ''100'', ''do'', ''200'', ''hrn'']))"
    unfolding r1 by code_simp
  have v2: "[100] = map int_of_digits (digit_runs (join_sp [''100'']))"
    unfolding r2 by code_simp
  have d1: "distinct (dict_keys ?f1)" by (simp add: dict_keys_def)
  have d2: "distinct (dict_keys ?f2)" by (simp add: dict_keys_def)
  have p1: "dict_get ?f1 ''price'' = Some [''vid'', ''100'', ''do'', ''200'', ''hrn'']"
    by (simp add: dict_get_def)
  have p2: "dict_get ?f2 ''price'' = Some [''100'']"
    by (simp add: dict_get_def)
  have n1: "digit_runs (join_sp [''vid'', ''100'', ''do'', ''200'', ''hrn'']) \<noteq> []"
    unfolding r1 by simp
  have n2: "digit_runs (join_sp [''100'']) \<noteq> []"
    unfolding r2 by simp
  have l1: "list_all (\<lambda>r. length r \<le> int_max_str_digits)
              (digit_runs (join_sp [''vid'', ''100'', ''do'', ''200'', ''hrn'']))"
    unfolding r1 by (simp add: int_max_str_digits_def)
  have l2: "list_all (\<lambda>r. length r \<le> int_max_str_digits) (digit_runs (join_sp [''100'']))"
    unfolding r2 by (simp add: int_max_str_digits_def)
  from fix_search_fields_price [OF d1 p1 n1 l1 v1] fix_search_fields_price [OF d2 p2 n2 l2 v2]
  show ?thesis by simp
qed

text \<open>
  The claim as it is written fails on a price bucket with a run of more than 4300
  digits: \<open>int\<close> refuses the run with a \<open>ValueError\<close> and no filter is built. The
  bucket here is one word of 4301 zeros.
\<close>

lemma digit_runs_from_replicate:
  "is_digit c \<Longrightarrow>
   digit_runs_from cur (replicate n c)
     = (if cur = [] \<and> n = 0 then [] else [cur @ replicate n c])"
proof (induction n arbitrary: cur)
  case 0
  show ?case by simp
next
  case (Suc n)
  then show ?case by (simp add: replicate_app_Cons_same)
qed

lemma fix_search_fields_long_run:
  assumes "is_digit c" and "int_max_str_digits < n"
  shows "fix_search_fields [(''price'', [replicate n c])] = Inl PyValueError
       \<and> digit_runs (join_sp [replicate n c]) = [replicate n c]"
proof -
  from assms(2) have n: "n \<noteq> 0" by (simp add: int_max_str_digits_def)
  have runs: "digit_runs (join_sp [replicate n c]) = [replicate n c]"
    using n by (simp add: digit_runs_def digit_runs_from_replicate [OF assms(1)])
  have "py_ints [replicate n c] = Inl PyValueError"
    using assms(2) by (simp add: py_int_def)
  then have "search_step ''price'' [(''price'', Lit [replicate n c])] = Inl PyValueError"
    using runs by (simp add: search_step_def dict_get_def)
  then show ?thesis
    using runs by (simp add: fix_search_fields_def dict_keys_def)
qed

theorem fix_search_fields_price_counterexample:
  "fix_search_fields [(''price'', [replicate 4301 (CHR ''0'')])] = Inl PyValueError
   \<and> digit_runs (join_sp [replicate 4301 (CHR ''0'')]) = [replicate 4301 (CHR ''0'')]"
proof -
  have d: "is_digit (CHR ''0'')" by (simp add: is_digit_def)
  have l: "int_max_str_digits < 4301" by (simp add: int_max_str_digits_def)
  from d l show ?thesis by (rule fix_search_fields_long_run)
qed


text \<open>
  The same two buckets evaluated, and a bucket with no digit, where \<open>min\<close> of the
  empty list raises.
\<close>

lemma fix_search_fields_price_eval:
  "fix_search_fields [(''price'', [''vid'', ''100'', ''do'', ''200'', ''hrn''])]
     = Inr [(''price'', Range 100 200)]
   \<and> fix_search_fields [(''price'', [''100''])] = Inr [(''price'', Range 100 100)]
   \<and> fix_search_fields [(''price'', [''hrn''])] = Inl PyValueError"
  by code_simp

end
